theory Spec2Isabelle
  imports Main "HOL-Library.Sublist"
begin

section \<open>The string primitives used by package fail\<close>

text \<open>
  Go strings are byte sequences; they are modelled as \<open>string\<close> (lists of 8-bit
  characters). Only the functions of package \<open>strings\<close> that \<open>fail.go\<close> calls are
  modelled, each with the result the Go library documents.
\<close>

definition newline :: char where
  "newline = CHR 0x0A"

text \<open>\<open>strings.Contains(s, substr)\<close>: \<open>substr\<close> occurs somewhere within \<open>s\<close>.\<close>

fun Contains :: "string \<Rightarrow> string \<Rightarrow> bool" where
  "Contains [] substr = (substr = [])"
| "Contains (c # cs) substr = (prefix substr (c # cs) \<or> Contains cs substr)"

text \<open>\<open>strings.HasPrefix\<close> and \<open>strings.HasSuffix\<close>.\<close>

definition HasPrefix :: "string \<Rightarrow> string \<Rightarrow> bool" where
  "HasPrefix s p = prefix p s"

definition HasSuffix :: "string \<Rightarrow> string \<Rightarrow> bool" where
  "HasSuffix s p = suffix p s"

text \<open>
  \<open>strings.TrimSpace\<close> removes the leading and the trailing white space, as Unicode
  defines it. On bytes, a white space character is one of the UTF-8 encodings below:
  the six ASCII ones (tab, line feed, vertical tab, form feed, carriage return,
  space), then U+0085, U+00A0, U+1680, U+2000 to U+200A, U+2028, U+2029, U+202F,
  U+205F and U+3000. An encoding of a character never starts or ends inside the
  encoding of another, so removing these byte sequences at both ends is what
  decoding the first and the last character does.
\<close>

definition space_runes :: "string list" where
  "space_runes =
     [[CHR 0x09], [CHR 0x0A], [CHR 0x0B], [CHR 0x0C], [CHR 0x0D], [CHR 0x20],
      [CHR 0xC2, CHR 0x85], [CHR 0xC2, CHR 0xA0], [CHR 0xE1, CHR 0x9A, CHR 0x80],
      [CHR 0xE2, CHR 0x80, CHR 0x80], [CHR 0xE2, CHR 0x80, CHR 0x81],
      [CHR 0xE2, CHR 0x80, CHR 0x82], [CHR 0xE2, CHR 0x80, CHR 0x83],
      [CHR 0xE2, CHR 0x80, CHR 0x84], [CHR 0xE2, CHR 0x80, CHR 0x85],
      [CHR 0xE2, CHR 0x80, CHR 0x86], [CHR 0xE2, CHR 0x80, CHR 0x87],
      [CHR 0xE2, CHR 0x80, CHR 0x88], [CHR 0xE2, CHR 0x80, CHR 0x89],
      [CHR 0xE2, CHR 0x80, CHR 0x8A], [CHR 0xE2, CHR 0x80, CHR 0xA8],
      [CHR 0xE2, CHR 0x80, CHR 0xA9], [CHR 0xE2, CHR 0x80, CHR 0xAF],
      [CHR 0xE2, CHR 0x81, CHR 0x9F], [CHR 0xE3, CHR 0x80, CHR 0x80]]"

function strip_prefixes :: "string list \<Rightarrow> string \<Rightarrow> string" where
  "strip_prefixes rs s =
     (case find (\<lambda>r. r \<noteq> [] \<and> prefix r s) rs of
        None \<Rightarrow> s
      | Some r \<Rightarrow> strip_prefixes rs (drop (length r) s))"
  by pat_completeness auto
termination
proof (relation "measure (\<lambda>(rs, s). length s)")
  show "wf (measure (\<lambda>(rs, s). length s))" by simp
next
  fix rs :: "string list" and s r :: string
  assume "find (\<lambda>r. r \<noteq> [] \<and> prefix r s) rs = Some r"
  then have "r \<noteq> [] \<and> prefix r s" by (auto simp: find_Some_iff)
  then have "length (drop (length r) s) < length s" by (auto simp: prefix_def)
  then show "((rs, drop (length r) s), (rs, s)) \<in> measure (\<lambda>(rs, s). length s)" by simp
qed

definition TrimSpace :: "string \<Rightarrow> string" where
  "TrimSpace s =
     rev (strip_prefixes (map rev space_runes) (rev (strip_prefixes space_runes s)))"

text \<open>
  \<open>strings.LastIndex(s, substr)\<close>: the index of the last occurrence of \<open>substr\<close> in
  \<open>s\<close>, or \<open>-1\<close> when there is none (and \<open>len(s)\<close> for the empty \<open>substr\<close>).
\<close>

fun LastIndex :: "string \<Rightarrow> string \<Rightarrow> int" where
  "LastIndex [] substr = (if substr = [] then 0 else - 1)"
| "LastIndex (c # cs) substr =
     (let r = LastIndex cs substr
      in if r \<noteq> - 1 then r + 1
         else if prefix substr (c # cs) then 0 else - 1)"

text \<open>
  \<open>strings.Split(s, sep)\<close> for a one-byte separator (the source only splits at
  \<open>"\n"\<close>): \<open>n\<close> separators give \<open>n + 1\<close> pieces, the empty string gives one empty
  piece.
\<close>

fun Split :: "string \<Rightarrow> char \<Rightarrow> string list" where
  "Split [] sep = [[]]"
| "Split (c # cs) sep =
     (if c = sep then [] # Split cs sep
      else (case Split cs sep of
              [] \<Rightarrow> [[c]]
            | p # ps \<Rightarrow> (c # p) # ps))"

text \<open>\<open>strings.Join(elems, sep)\<close>.\<close>

fun Join :: "string list \<Rightarrow> string \<Rightarrow> string" where
  "Join [] sep = []"
| "Join [e] sep = e"
| "Join (e # e' # es) sep = e @ sep @ Join (e' # es) sep"

section \<open>Trace reduction: \<open>clean\<close> and \<open>squash\<close>\<close>

text \<open>
  \<open>clean\<close> (fail.go, lines 31 to 41). The slice \<open>str[0:k]\<close> is \<open>take k str\<close>; both
  indices come from \<open>LastIndex\<close> and are only used when they are not \<open>-1\<close>.
\<close>

definition clean :: "string \<Rightarrow> string" where
  "clean str =
     (let bracket = LastIndex str ''('';
          lineIndex = LastIndex str '' +0x''
      in if HasSuffix str '')'' \<and> bracket \<noteq> - 1 then take (nat bracket) str
         else if lineIndex \<noteq> - 1 then take (nat lineIndex) str
         else str)"

text \<open>
  The loop variables of \<open>squash\<close> (fail.go, lines 44 and 45; \<open>include\<close> is written
  \<open>include'\<close>, the plain name being reserved) and one iteration of its
  \<open>for ... range\<close> loop (lines 47 to 56). The package path \<open>pkgPath\<close> is computed by
  reflection when the package is initialised; it is a parameter here.
\<close>

record squash_vars =
  squashed :: "string list"
  found :: bool
  include' :: bool
  strippedPath :: bool

definition squash_init :: squash_vars where
  "squash_init = \<lparr>squashed = [''''], found = False, include' = False, strippedPath = False\<rparr>"

definition squash_body :: "string \<Rightarrow> string \<Rightarrow> squash_vars \<Rightarrow> squash_vars" where
  "squash_body pkgPath part v =
     (let v1 = (if Contains part pkgPath then v\<lparr>found := True, strippedPath := True\<rparr>
                else if HasPrefix (TrimSpace part) ''testing.tRunner''
                     then v\<lparr>include' := False, found := False\<rparr>
                else if found v then v\<lparr>include' := True\<rparr>
                else v)
      in if include' v1 then v1\<lparr>squashed := squashed v1 @ [clean part]\<rparr> else v1)"

fun squash_loop :: "string \<Rightarrow> string list \<Rightarrow> squash_vars \<Rightarrow> squash_vars" where
  "squash_loop pkgPath [] v = v"
| "squash_loop pkgPath (part # rest) v = squash_loop pkgPath rest (squash_body pkgPath part v)"

definition squash :: "string \<Rightarrow> string list \<Rightarrow> string list \<times> bool" where
  "squash pkgPath trace =
     (let v = squash_loop pkgPath trace squash_init
      in if \<not> strippedPath v then (trace, False) else (squashed v, True))"

text \<open>
  The repetition in \<open>Using\<close> (fail.go, lines 74 to 77): one call of \<open>squash\<close>, then
  the loop \<open>for i := 0; i < 3 && more; i++\<close>, which calls \<open>squash\<close> on the previous
  result (\<open>more\<close> is written \<open>more'\<close>).
\<close>

function resquash :: "string \<Rightarrow> nat \<Rightarrow> string list \<times> bool \<Rightarrow> string list \<times> bool" where
  "resquash pkgPath i (sq, more') =
     (if i < 3 \<and> more' then resquash pkgPath (i + 1) (squash pkgPath sq) else (sq, more'))"
  by pat_completeness auto
termination
  by (relation "measure (\<lambda>(pkgPath, i, r). 3 - i)") auto

definition reduce :: "string \<Rightarrow> string list \<Rightarrow> string list \<times> bool" where
  "reduce pkgPath trace = resquash pkgPath 0 (squash pkgPath trace)"

text \<open>
  The same control flow, returning the result of every call of \<open>squash\<close> it makes, in
  order (a record of the calls, used to count them; \<open>reduce_is_last_call\<close> below ties
  it to \<open>reduce\<close>).
\<close>

function resquash_calls :: "string \<Rightarrow> nat \<Rightarrow> string list \<times> bool \<Rightarrow> (string list \<times> bool) list" where
  "resquash_calls pkgPath i (sq, more') =
     (if i < 3 \<and> more'
      then squash pkgPath sq # resquash_calls pkgPath (i + 1) (squash pkgPath sq)
      else [])"
  by pat_completeness auto
termination
  by (relation "measure (\<lambda>(pkgPath, i, r). 3 - i)") auto

definition squash_calls :: "string \<Rightarrow> string list \<Rightarrow> (string list \<times> bool) list" where
  "squash_calls pkgPath trace =
     squash pkgPath trace # resquash_calls pkgPath 0 (squash pkgPath trace)"

section \<open>Failure signals and the process-wide failure state\<close>

text \<open>
  Values of type \<open>interface{}\<close>: \<open>nil\<close>, an error (with the text its \<open>Error\<close> method
  returns), a string, a boolean, and a value of the package's type \<open>failure\<close>, which
  is a slice of such values. Values are data: printing one runs no code that could
  touch the package state.
\<close>

datatype val = VNil | VErr string | VStr string | VBool bool | VFail "val list"

text \<open>The package variables \<open>failing\<close> and \<open>queue\<close> (fail.go, lines 141 and 142).\<close>

record state =
  failing :: bool
  queue :: "val list"

definition init_state :: state where
  "init_state = \<lparr>failing = False, queue = []\<rparr>"

text \<open>A call either returns or panics with a value.\<close>

datatype outcome = Returned | Panicked val

text \<open>
  \<open>fmt.Sprintln\<close>: every operand in its default format (\<open>%v\<close>), a space between
  operands, a line feed at the end.
\<close>

fun render :: "val \<Rightarrow> string" where
  "render VNil = ''<nil>''"
| "render (VErr e) = e"
| "render (VStr s) = s"
| "render (VBool b) = (if b then ''true'' else ''false'')"
| "render (VFail vs) = ''['' @ Join (map render vs) '' '' @ '']''"

definition Sprintln :: "val list \<Rightarrow> string" where
  "Sprintln vs = Join (map render vs) '' '' @ [newline]"

text \<open>\<open>Message\<close> (fail.go, lines 154 to 157): returns the new state and the value.\<close>

definition Message :: "val list \<Rightarrow> state \<Rightarrow> state \<times> val" where
  "Message args s = (s\<lparr>failing := True\<rparr>, VFail args)"

text \<open>
  \<open>enqueue\<close> (fail.go, lines 144 to 151): \<open>panic(f)\<close> runs the deferred function,
  whose \<open>recover()\<close> returns \<open>f\<close>. The type assertion \<open>.(failure)\<close> succeeds on a
  \<open>failure\<close>; on any other value it panics with a run-time error, which replaces the
  panic in progress and leaves \<open>enqueue\<close>.
\<close>

definition assertion_error :: val where
  "assertion_error = VErr ''interface conversion: interface {} is not fail.failure''"

definition enqueue :: "val \<Rightarrow> state \<Rightarrow> state \<times> outcome" where
  "enqueue f s =
     (case f of
        VFail r \<Rightarrow>
          (let sq = ['''', ''Failure on defer: '' @ Sprintln r]
           in (s\<lparr>queue := queue s @ [VStr (Join sq [newline])]\<rparr>, Returned))
      | _ \<Rightarrow> (s, Panicked assertion_error))"

text \<open>\<open>Now\<close> (fail.go, lines 162 to 167).\<close>

definition Now :: "val list \<Rightarrow> state \<Rightarrow> state \<times> outcome" where
  "Now args s =
     (if \<not> failing s
      then (case Message args s of (s', m) \<Rightarrow> (s', Panicked m))
      else (case Message args s of (s', m) \<Rightarrow> enqueue m s'))"

text \<open>
  \<open>IfErr\<close> (lines 111 to 115), \<open>IfDeferred\<close> (lines 127 to 131) and \<open>If\<close> (lines 135
  to 139). \<open>append([]interface{}{err}, args...)\<close> is \<open>err # args\<close>. The function
  passed to \<open>IfDeferred\<close> may change the state, and returns an error (\<open>Inr\<close>) or
  panics (\<open>Inl\<close>).
\<close>

definition IfErr :: "val \<Rightarrow> val list \<Rightarrow> state \<Rightarrow> state \<times> outcome" where
  "IfErr err args s = (if err \<noteq> VNil then Now (err # args) s else (s, Returned))"

definition IfDeferred :: "(state \<Rightarrow> state \<times> (val + val)) \<Rightarrow> val list \<Rightarrow> state \<Rightarrow> state \<times> outcome" where
  "IfDeferred fn args s =
     (case fn s of
        (s', Inl v) \<Rightarrow> (s', Panicked v)
      | (s', Inr err) \<Rightarrow> (if err \<noteq> VNil then Now (err # args) s' else (s', Returned)))"

definition If :: "bool \<Rightarrow> val list \<Rightarrow> state \<Rightarrow> state \<times> outcome" where
  "If condition args s = (if condition then Now args s else (s, Returned))"

text \<open>
  \<open>Using\<close> (fail.go, lines 66 to 85). \<open>r\<close> is what \<open>recover()\<close> returned, \<open>stack\<close>
  is what \<open>debug.Stack()\<close> returns at line 73, and \<open>failer\<close> is the reporter: it is
  called with the arguments and the state of that moment, and \<open>Using\<close> ends as the
  reporter ends.
\<close>

definition Using ::
  "string \<Rightarrow> string \<Rightarrow> (val list \<Rightarrow> state \<Rightarrow> state \<times> outcome) \<Rightarrow> val \<Rightarrow> state \<Rightarrow> state \<times> outcome" where
  "Using pkgPath stack failer r s =
     (case r of
        VNil \<Rightarrow> (s, Returned)
      | VFail f \<Rightarrow>
          (let trace = Split stack newline;
               sq = fst (reduce pkgPath trace);
               res = f @ [VStr (Join sq [newline])];
               res = res @ queue s;
               s' = s\<lparr>failing := False, queue := []\<rparr>
           in failer res s')
      | _ \<Rightarrow> (s, Panicked r))"

section \<open>Deferred calls\<close>

text \<open>
  Go runs the deferred calls of a function when it returns or panics, last registered
  first. A deferred call that returns leaves the panic in progress as it is; one that
  panics replaces it. \<open>unwind ds r\<close> runs the deferred calls \<open>ds\<close> (in the order they
  run) after the body ended with \<open>r\<close>. \<open>recover()\<close> in the last deferred call returns
  the value of the panic in progress, or \<open>nil\<close>.
\<close>

fun unwind :: "(state \<Rightarrow> state \<times> outcome) list \<Rightarrow> state \<times> outcome \<Rightarrow> state \<times> outcome" where
  "unwind [] r = r"
| "unwind (d # ds) (s, out) =
     (case d s of
        (s', Returned) \<Rightarrow> unwind ds (s', out)
      | (s', Panicked v) \<Rightarrow> unwind ds (s', Panicked v))"

fun recovered :: "outcome \<Rightarrow> val" where
  "recovered Returned = VNil"
| "recovered (Panicked v) = v"

text \<open>
  A test function that starts with \<open>defer fail.Using(failer)\<close>, registers the deferred
  calls \<open>ds\<close> (given in the order they run) and executes \<open>body\<close>.
\<close>

definition guarded ::
  "string \<Rightarrow> string \<Rightarrow> (val list \<Rightarrow> state \<Rightarrow> state \<times> outcome) \<Rightarrow>
   (state \<Rightarrow> state \<times> outcome) \<Rightarrow> (state \<Rightarrow> state \<times> outcome) list \<Rightarrow> state \<Rightarrow> state \<times> outcome" where
  "guarded pkgPath stack failer body ds s =
     (case unwind ds (body s) of (s', out) \<Rightarrow> Using pkgPath stack failer (recovered out) s')"

text \<open>
  Sequences of calls of the package's exported functions, run from a given state. A
  panic ends the call that raised it, not the sequence: the state is what the next
  call finds. The reporter given to \<open>Using\<close> and the function given to \<open>IfDeferred\<close>
  are taken not to touch the package state themselves (what they call of the package
  is part of the sequence).
\<close>

datatype call =
    CallMessage "val list"
  | CallNow "val list"
  | CallIfErr val "val list"
  | CallIfDeferred val "val list"
  | CallIf bool "val list"
  | CallUsing string val

fun exec_call :: "string \<Rightarrow> call \<Rightarrow> state \<Rightarrow> state" where
  "exec_call pkgPath (CallMessage args) s = fst (Message args s)"
| "exec_call pkgPath (CallNow args) s = fst (Now args s)"
| "exec_call pkgPath (CallIfErr err args) s = fst (IfErr err args s)"
| "exec_call pkgPath (CallIfDeferred err args) s = fst (IfDeferred (\<lambda>s. (s, Inr err)) args s)"
| "exec_call pkgPath (CallIf c args) s = fst (If c args s)"
| "exec_call pkgPath (CallUsing stack r) s = fst (Using pkgPath stack (\<lambda>res s. (s, Returned)) r s)"

fun run :: "string \<Rightarrow> call list \<Rightarrow> state \<Rightarrow> state" where
  "run pkgPath [] s = s"
| "run pkgPath (c # cs) s = run pkgPath cs (exec_call pkgPath c s)"

section \<open>The second source file\<close>

text \<open>
  The repository's other file declares the package again, without the failure state:
  \<open>IfNot\<close> (lines 56 to 60) panics with the failure itself, and its \<open>Using\<close> (lines 10
  to 36, here \<open>Using_part0\<close>) scans the stack once, keeps the lines as they are and
  calls the reporter with the failure and the joined lines. Its loop variables
  \<open>squashed\<close>, \<open>found\<close> and \<open>include\<close> are a triple here.
\<close>

definition IfNot :: "bool \<Rightarrow> val list \<Rightarrow> outcome" where
  "IfNot condition args = (if \<not> condition then Panicked (VFail args) else Returned)"

definition scan_body_part0 ::
  "string \<Rightarrow> string \<Rightarrow> string list \<times> bool \<times> bool \<Rightarrow> string list \<times> bool \<times> bool" where
  "scan_body_part0 pkgPath part v =
     (case v of (sq, fnd, inc) \<Rightarrow>
        (case (if Contains part pkgPath then (True, inc)
               else if HasPrefix (TrimSpace part) ''testing.tRunner'' then (False, False)
               else if fnd then (fnd, True)
               else (fnd, inc)) of
           (fnd1, inc1) \<Rightarrow> (if inc1 then sq @ [part] else sq, fnd1, inc1)))"

fun scan_part0 ::
  "string \<Rightarrow> string list \<Rightarrow> string list \<times> bool \<times> bool \<Rightarrow> string list \<times> bool \<times> bool" where
  "scan_part0 pkgPath [] v = v"
| "scan_part0 pkgPath (part # rest) v = scan_part0 pkgPath rest (scan_body_part0 pkgPath part v)"

definition Using_part0 :: "string \<Rightarrow> string \<Rightarrow> (val list \<Rightarrow> outcome) \<Rightarrow> val \<Rightarrow> outcome" where
  "Using_part0 pkgPath stack failer r =
     (case r of
        VNil \<Rightarrow> Returned
      | VFail f \<Rightarrow>
          (let parts = Split stack newline;
               sq = fst (scan_part0 pkgPath parts ([''''], False, False))
           in failer (f @ [VStr (Join sq [newline])]))
      | _ \<Rightarrow> Panicked r)"

section \<open>Example inputs\<close>

text \<open>
  The import path of the package, and a stack as \<open>debug.Stack()\<close> prints it inside
  \<open>Using\<close> after \<open>fail.Now\<close> panicked in a test: the frames of the package, the
  run-time's \<open>panic\<close>, the test function and the test runner.
\<close>

definition example_pkgPath :: string where
  "example_pkgPath = ''github.com/sridharv/fail''"

definition example_internal :: "string list" where
  "example_internal =
     [''github.com/sridharv/fail.Now(0xc00009af08, 0x1, 0x1)'',
      CHR 0x09 # ''/go/src/github.com/sridharv/fail/fail.go:164 +0x8a'']"

definition example_user :: "string list" where
  "example_user =
     [''main.TestX(0xc0000b2100)'',
      CHR 0x09 # ''/src/x_test.go:12 +0x1d'']"

definition example_runner :: string where
  "example_runner = ''testing.tRunner(0xc0000b2100, 0x1138a28)''"

definition example_trace :: "string list" where
  "example_trace =
     [''goroutine 7 [running]:'',
      ''github.com/sridharv/fail.Using(0xc000012345)'',
      CHR 0x09 # ''/go/src/github.com/sridharv/fail/fail.go:73 +0x5e'',
      ''panic(0x10a5a00, 0xc000010250)'',
      CHR 0x09 # ''/usr/local/go/src/runtime/panic.go:522 +0x1b5'']
     @ example_internal @ example_user
     @ [example_runner,
        CHR 0x09 # ''/usr/local/go/src/testing/testing.go:865 +0xc0'',
        '''']"

definition example_stack :: string where
  "example_stack = Join example_trace [newline]"

text \<open>A reporter that panics with the arguments it was given.\<close>

definition example_failer :: "val list \<Rightarrow> state \<Rightarrow> state \<times> outcome" where
  "example_failer res s = (s, Panicked (VFail res))"

section \<open>Lemmas on the string functions\<close>

lemma Contains_sublist: "Contains s p = sublist p s"
  by (induction s) (simp_all add: sublist_Cons_right)

lemma Contains_empty: "Contains s []"
  by (cases s) simp_all

lemma Contains_take: "Contains (take n s) p \<Longrightarrow> Contains s p"
  unfolding Contains_sublist using sublist_take sublist_order.order.trans by blast

lemma LastIndex_absent: "c \<notin> set zs \<Longrightarrow> LastIndex zs (c # p) = - 1"
  by (induction zs) (simp_all add: Let_def)

lemma LastIndex_last_occurrence:
  "c \<notin> set (p @ ys) \<Longrightarrow> LastIndex (xs @ (c # p) @ ys) (c # p) = int (length xs)"
proof (induction xs)
  case Nil
  then have "LastIndex (p @ ys) (c # p) = - 1" by (rule LastIndex_absent)
  then show ?case by (simp add: Let_def)
next
  case (Cons x xs)
  then show ?case by (simp add: Let_def)
qed

section \<open>Lemmas on \<open>clean\<close>\<close>

lemma clean_take: "\<exists>n. clean str = take n str"
  unfolding clean_def Let_def
  by (metis take_all order_refl)

lemma Contains_clean: "Contains (clean str) p \<Longrightarrow> Contains str p"
  using clean_take [of str] Contains_take by metis

lemma clean_arguments:
  assumes "CHR ''('' \<notin> set a"
  shows "clean (f @ ''('' @ a @ '')'') = f"
proof -
  from assms have "CHR ''('' \<notin> set ([] @ (a @ '')''))" by simp
  then have "LastIndex (f @ (CHR ''('' # []) @ (a @ '')'')) (CHR ''('' # []) = int (length f)"
    by (rule LastIndex_last_occurrence)
  moreover have "HasSuffix (f @ ''('' @ a @ '')'') '')''"
    by (simp add: HasSuffix_def suffix_def)
  ultimately show ?thesis by (simp add: clean_def Let_def)
qed

lemma clean_offset:
  assumes "set h \<subseteq> set ''0123456789abcdef''"
  shows "clean (s @ '' +0x'' @ h) = s"
proof -
  from assms have "CHR '' '' \<notin> set (''+0x'' @ h)" by auto
  then have li: "LastIndex (s @ (CHR '' '' # ''+0x'') @ h) (CHR '' '' # ''+0x'') = int (length s)"
    by (rule LastIndex_last_occurrence)
  have "last (s @ '' +0x'' @ h) \<noteq> CHR '')''"
  proof (cases "h = []")
    case True
    then show ?thesis by simp
  next
    case False
    then have "last (s @ '' +0x'' @ h) = last h" by simp
    moreover have "last h \<in> set h" using False by simp
    ultimately show ?thesis using assms by auto
  qed
  then have "\<not> HasSuffix (s @ '' +0x'' @ h) '')''"
    unfolding HasSuffix_def suffix_def
  proof (intro notI, elim exE)
    fix zs
    assume l: "last (s @ '' +0x'' @ h) \<noteq> CHR '')''" and e: "s @ '' +0x'' @ h = zs @ '')''"
    have "last (zs @ '')'') = CHR '')''" by simp
    with l e show False by metis
  qed
  with li show ?thesis by (simp add: clean_def Let_def)
qed

section \<open>Lemmas on one pass of \<open>squash\<close>\<close>

lemma squash_loop_append:
  "squash_loop pkgPath (xs @ ys) v = squash_loop pkgPath ys (squash_loop pkgPath xs v)"
  by (induction xs arbitrary: v) simp_all

lemma squash_loop_no_internal:
  "\<forall>part \<in> set trace. \<not> Contains part pkgPath \<Longrightarrow>
   strippedPath (squash_loop pkgPath trace v) = strippedPath v"
  by (induction trace arbitrary: v) (simp_all add: squash_body_def Let_def)

lemma squash_unchanged:
  "\<forall>part \<in> set trace. \<not> Contains part pkgPath \<Longrightarrow> squash pkgPath trace = (trace, False)"
  by (simp add: squash_def squash_loop_no_internal squash_init_def)

lemma squash_loop_idle:
  "\<forall>part \<in> set P. \<not> Contains part pkgPath \<Longrightarrow> \<not> found v \<Longrightarrow> \<not> include' v \<Longrightarrow>
   squash_loop pkgPath P v = v"
  by (induction P arbitrary: v) (simp_all add: squash_body_def)

lemma squash_loop_internal:
  "\<forall>part \<in> set I. Contains part pkgPath \<Longrightarrow> \<not> include' v \<Longrightarrow> I \<noteq> [] \<Longrightarrow>
   squash_loop pkgPath I v = v\<lparr>found := True, strippedPath := True\<rparr>"
proof (induction I arbitrary: v)
  case Nil
  then show ?case by simp
next
  case (Cons a I)
  show ?case
  proof (cases "I = []")
    case True
    with Cons.prems show ?thesis by (simp add: squash_body_def)
  next
    case False
    with Cons show ?thesis by (simp add: squash_body_def)
  qed
qed

lemma squash_loop_user:
  "\<forall>u \<in> set U. \<not> Contains u pkgPath \<and> \<not> HasPrefix (TrimSpace u) ''testing.tRunner'' \<Longrightarrow>
   found v \<Longrightarrow>
   squash_loop pkgPath U v =
     (if U = [] then v else v\<lparr>include' := True, squashed := squashed v @ map clean U\<rparr>)"
proof (induction U arbitrary: v)
  case Nil
  then show ?case by simp
next
  case (Cons a U)
  then show ?case by (cases "U = []") (simp_all add: squash_body_def)
qed

lemma squash_framed:
  assumes P: "\<forall>part \<in> set P. \<not> Contains part pkgPath"
    and I: "I \<noteq> []" "\<forall>part \<in> set I. Contains part pkgPath"
    and U: "U \<noteq> []"
      "\<forall>u \<in> set U. \<not> Contains u pkgPath \<and> \<not> HasPrefix (TrimSpace u) ''testing.tRunner''"
    and B: "\<not> Contains B pkgPath" "HasPrefix (TrimSpace B) ''testing.tRunner''"
    and R: "\<forall>part \<in> set R. \<not> Contains part pkgPath"
  shows "squash pkgPath (P @ I @ U @ [B] @ R) = ('''' # map clean U, True)"
proof -
  let ?v0 = "\<lparr>squashed = [''''], found = False, include' = False, strippedPath = False\<rparr>"
  let ?v2 = "\<lparr>squashed = [''''], found = True, include' = False, strippedPath = True\<rparr>"
  let ?v3 = "\<lparr>squashed = '''' # map clean U, found = True, include' = True,
              strippedPath = True\<rparr>"
  let ?v4 = "\<lparr>squashed = '''' # map clean U, found = False, include' = False,
              strippedPath = True\<rparr>"
  have 1: "squash_loop pkgPath P ?v0 = ?v0"
    using P by (simp add: squash_loop_idle)
  have 2: "squash_loop pkgPath I ?v0 = ?v2"
    using I by (simp add: squash_loop_internal)
  have 3: "squash_loop pkgPath U ?v2 = ?v3"
    using U by (simp add: squash_loop_user)
  have 4: "squash_body pkgPath B ?v3 = ?v4"
    using B by (simp add: squash_body_def)
  have 5: "squash_loop pkgPath R ?v4 = ?v4"
    using R by (simp add: squash_loop_idle)
  have "squash_loop pkgPath (P @ I @ U @ [B] @ R) ?v0 = ?v4"
    by (simp only: squash_loop_append squash_loop.simps 1 2 3 4 5)
  then show ?thesis
    by (simp add: squash_def squash_init_def)
qed

lemma reduce_framed:
  assumes sq: "squash pkgPath trace = ('''' # map clean U, True)"
    and U: "U \<noteq> []"
      "\<forall>u \<in> set U. \<not> Contains u pkgPath \<and> \<not> HasPrefix (TrimSpace u) ''testing.tRunner''"
  shows "reduce pkgPath trace = ('''' # map clean U, False)"
proof -
  from U obtain u where "\<not> Contains u pkgPath" by (cases U) auto
  then have ne: "pkgPath \<noteq> []" using Contains_empty by auto
  have "\<forall>part \<in> set ('''' # map clean U). \<not> Contains part pkgPath"
    using U ne Contains_clean by auto
  then have "squash pkgPath ('''' # map clean U) = ('''' # map clean U, False)"
    by (rule squash_unchanged)
  then show ?thesis by (simp add: reduce_def sq)
qed

section \<open>Lemmas on the repetition of \<open>squash\<close>\<close>

lemma resquash_calls_length: "length (resquash_calls pkgPath i r) \<le> 3 - i"
proof (induction pkgPath i r rule: resquash_calls.induct)
  case (1 pkgPath i sq more')
  show ?case
  proof (cases "i < 3 \<and> more'")
    case True
    with 1 have "length (resquash_calls pkgPath (i + 1) (squash pkgPath sq)) \<le> 3 - (i + 1)"
      by simp
    with True have "Suc (length (resquash_calls pkgPath (i + 1) (squash pkgPath sq))) \<le> 3 - i"
      by linarith
    with True show ?thesis by simp
  next
    case False
    then show ?thesis by auto
  qed
qed

lemma resquash_calls_chain:
  "Suc k < length (r # resquash_calls pkgPath i r) \<Longrightarrow>
   snd ((r # resquash_calls pkgPath i r) ! k) \<and>
   (r # resquash_calls pkgPath i r) ! Suc k =
     squash pkgPath (fst ((r # resquash_calls pkgPath i r) ! k))"
proof (induction pkgPath i r arbitrary: k rule: resquash_calls.induct)
  case (1 pkgPath i sq more')
  show ?case
  proof (cases "i < 3 \<and> more'")
    case True
    note T = True
    show ?thesis
    proof (cases k)
      case 0
      with T show ?thesis by simp
    next
      case (Suc j)
      with T "1.prems"
      have "Suc j < length (squash pkgPath sq # resquash_calls pkgPath (i + 1) (squash pkgPath sq))"
        by simp
      with T "1.IH" [of j] Suc show ?thesis by simp
    qed
  next
    case False
    with "1.prems" show ?thesis by simp
  qed
qed

lemma resquash_calls_stop:
  "length (resquash_calls pkgPath i r) < 3 - i \<Longrightarrow>
   \<not> snd (last (r # resquash_calls pkgPath i r))"
proof (induction pkgPath i r rule: resquash_calls.induct)
  case (1 pkgPath i sq more')
  show ?case
  proof (cases "i < 3 \<and> more'")
    case True
    with "1.prems"
    have "length (resquash_calls pkgPath (i + 1) (squash pkgPath sq)) < 3 - (i + 1)" by simp
    with True "1.IH" show ?thesis by simp
  next
    case False
    with "1.prems" show ?thesis by auto
  qed
qed

lemma resquash_last: "resquash pkgPath i r = last (r # resquash_calls pkgPath i r)"
proof (induction pkgPath i r rule: resquash_calls.induct)
  case (1 pkgPath i sq more')
  then show ?case by (cases "i < 3 \<and> more'") auto
qed

lemma reduce_is_last_call: "reduce pkgPath trace = last (squash_calls pkgPath trace)"
  by (simp only: reduce_def squash_calls_def resquash_last)

section \<open>Trace reduction: the claims\<close>

text \<open>
  Claim C8. When no line of the trace contains the package path, one pass of \<open>squash\<close>
  returns the trace as it is and reports \<open>false\<close>; a second pass, and the whole
  repetition in \<open>Using\<close>, give the same.
\<close>

theorem squash_reduced_trace_unchanged:
  "\<forall>part \<in> set trace. \<not> Contains part pkgPath \<Longrightarrow>
   squash pkgPath trace = (trace, False)
   \<and> squash pkgPath (fst (squash pkgPath trace)) = squash pkgPath trace
   \<and> reduce pkgPath trace = (trace, False)"
proof -
  assume "\<forall>part \<in> set trace. \<not> Contains part pkgPath"
  then have "squash pkgPath trace = (trace, False)" by (rule squash_unchanged)
  then show ?thesis by (simp add: reduce_def)
qed

theorem squash_reduced_trace_unchanged_witness:
  "squash example_pkgPath ('''' # map clean example_user @ [example_runner]) =
     ('''' # map clean example_user @ [example_runner], False)"
proof -
  have h: "\<forall>part \<in> set ('''' # map clean example_user @ [example_runner]).
             \<not> Contains part example_pkgPath"
    by code_simp
  from squash_reduced_trace_unchanged [OF h] show ?thesis by simp
qed

text \<open>
  Claim C3, as amended. For a trace made of lines that contain the package path (at
  least one), then user lines (at least one; a user line neither contains the package
  path nor is a runner line), then a line of the test runner, one pass of \<open>squash\<close>
  returns an empty string followed by exactly the user lines, each passed through
  \<open>clean\<close>, and nothing else; the repetition in \<open>Using\<close> ends with the same list. The
  same holds when lines without the package path precede the first or follow the last
  of these. \<open>clean\<close> removes a final \<open>" +0x"\<close> with its hexadecimal digits, and a
  final parenthesised argument list that has no opening parenthesis inside.
\<close>

theorem squash_keeps_user_frames:
  assumes "\<forall>part \<in> set P. \<not> Contains part pkgPath"
    and "I \<noteq> []" and "\<forall>part \<in> set I. Contains part pkgPath"
    and "U \<noteq> []"
    and "\<forall>u \<in> set U. \<not> Contains u pkgPath \<and> \<not> HasPrefix (TrimSpace u) ''testing.tRunner''"
    and "\<not> Contains B pkgPath" and "HasPrefix (TrimSpace B) ''testing.tRunner''"
    and "\<forall>part \<in> set R. \<not> Contains part pkgPath"
  shows "squash pkgPath (P @ I @ U @ [B] @ R) = ('''' # map clean U, True)
    \<and> reduce pkgPath (P @ I @ U @ [B] @ R) = ('''' # map clean U, False)
    \<and> (\<forall>s h. set h \<subseteq> set ''0123456789abcdef'' \<longrightarrow> clean (s @ '' +0x'' @ h) = s)
    \<and> (\<forall>f a. CHR ''('' \<notin> set a \<longrightarrow> clean (f @ ''('' @ a @ '')'') = f)"
proof -
  have sq: "squash pkgPath (P @ I @ U @ [B] @ R) = ('''' # map clean U, True)"
    using assms by (rule squash_framed)
  from sq assms(4,5) have "reduce pkgPath (P @ I @ U @ [B] @ R) = ('''' # map clean U, False)"
    by (rule reduce_framed)
  with sq show ?thesis
    using clean_offset clean_arguments by blast
qed

theorem squash_keeps_user_frames_witness:
  "squash example_pkgPath (example_internal @ example_user @ [example_runner]) =
     ([[], ''main.TestX'', CHR 0x09 # ''/src/x_test.go:12''], True)
   \<and> reduce example_pkgPath (example_internal @ example_user @ [example_runner]) =
     ([[], ''main.TestX'', CHR 0x09 # ''/src/x_test.go:12''], False)
   \<and> clean (''main.TestX'' @ ''('' @ ''0xc0000b2100'' @ '')'') = ''main.TestX''
   \<and> clean ((CHR 0x09 # ''/src/x_test.go:12'') @ '' +0x'' @ ''1d'') = CHR 0x09 # ''/src/x_test.go:12''"
proof -
  have P: "\<forall>part \<in> set []. \<not> Contains part example_pkgPath" by simp
  have I1: "example_internal \<noteq> []" by (simp add: example_internal_def)
  have I2: "\<forall>part \<in> set example_internal. Contains part example_pkgPath" by code_simp
  have U1: "example_user \<noteq> []" by (simp add: example_user_def)
  have U2: "\<forall>u \<in> set example_user.
      \<not> Contains u example_pkgPath \<and> \<not> HasPrefix (TrimSpace u) ''testing.tRunner''"
    by code_simp
  have B1: "\<not> Contains example_runner example_pkgPath" by code_simp
  have B2: "HasPrefix (TrimSpace example_runner) ''testing.tRunner''" by code_simp
  have c: "map clean example_user = [''main.TestX'', CHR 0x09 # ''/src/x_test.go:12'']"
    by code_simp
  have h1: "set ''1d'' \<subseteq> set ''0123456789abcdef''" by simp
  have h2: "CHR ''('' \<notin> set ''0xc0000b2100''" by simp
  note t = squash_keeps_user_frames [OF P I1 I2 U1 U2 B1 B2 P]
  from t c have a: "squash example_pkgPath (example_internal @ example_user @ [example_runner]) =
     ([[], ''main.TestX'', CHR 0x09 # ''/src/x_test.go:12''], True)"
    by simp
  from t c have b: "reduce example_pkgPath (example_internal @ example_user @ [example_runner]) =
     ([[], ''main.TestX'', CHR 0x09 # ''/src/x_test.go:12''], False)"
    by simp
  from t have "\<forall>f a. CHR ''('' \<notin> set a \<longrightarrow> clean (f @ ''('' @ a @ '')'') = f" by blast
  with h2 have d: "clean (''main.TestX'' @ ''('' @ ''0xc0000b2100'' @ '')'') = ''main.TestX''"
    by blast
  from t have "\<forall>s h. set h \<subseteq> set ''0123456789abcdef'' \<longrightarrow> clean (s @ '' +0x'' @ h) = s"
    by blast
  with h1 have e: "clean ((CHR 0x09 # ''/src/x_test.go:12'') @ '' +0x'' @ ''1d'') =
      CHR 0x09 # ''/src/x_test.go:12''"
    by blast
  from a b d e show ?thesis by blast
qed

theorem squash_leading_line_counterexample:
  "fst (squash example_pkgPath (example_internal @ example_user @ [example_runner]))
     \<noteq> [''main.TestX'', CHR 0x09 # ''/src/x_test.go:12'']
   \<and> fst (reduce example_pkgPath (example_internal @ example_user @ [example_runner]))
     \<noteq> [''main.TestX'', CHR 0x09 # ''/src/x_test.go:12'']
   \<and> fst (squash example_pkgPath (example_internal @ example_user @ [example_runner]))
     = [[], ''main.TestX'', CHR 0x09 # ''/src/x_test.go:12'']"
  by code_simp

text \<open>
  Claim C7. \<open>Using\<close> calls \<open>squash\<close> at least once and at most four times, each call
  on the result of the one before; every call but the last reported \<open>true\<close>, and when
  there are fewer than four calls the last one reported \<open>false\<close>. The trace that is
  joined is the result of the last call.
\<close>

theorem Using_squash_passes:
  "1 \<le> length (squash_calls pkgPath trace) \<and> length (squash_calls pkgPath trace) \<le> 4
   \<and> squash_calls pkgPath trace ! 0 = squash pkgPath trace
   \<and> (\<forall>k. Suc k < length (squash_calls pkgPath trace) \<longrightarrow>
          snd (squash_calls pkgPath trace ! k) \<and>
          squash_calls pkgPath trace ! Suc k =
            squash pkgPath (fst (squash_calls pkgPath trace ! k)))
   \<and> (length (squash_calls pkgPath trace) < 4 \<longrightarrow> \<not> snd (last (squash_calls pkgPath trace)))
   \<and> reduce pkgPath trace = last (squash_calls pkgPath trace)"
proof -
  let ?r = "squash pkgPath trace"
  have len: "length (resquash_calls pkgPath 0 ?r) \<le> 3"
    using resquash_calls_length [of pkgPath 0 ?r] by simp
  have chain: "\<forall>k. Suc k < length (squash_calls pkgPath trace) \<longrightarrow>
          snd (squash_calls pkgPath trace ! k) \<and>
          squash_calls pkgPath trace ! Suc k =
            squash pkgPath (fst (squash_calls pkgPath trace ! k))"
    unfolding squash_calls_def using resquash_calls_chain [of _ ?r pkgPath 0] by blast
  have stop: "length (squash_calls pkgPath trace) < 4 \<longrightarrow>
      \<not> snd (last (squash_calls pkgPath trace))"
    unfolding squash_calls_def using resquash_calls_stop [of pkgPath 0 ?r] by simp
  from len chain stop reduce_is_last_call [of pkgPath trace] show ?thesis
    by (simp add: squash_calls_def)
qed

theorem Using_squash_passes_witness:
  "length (squash_calls example_pkgPath example_trace) = 3
   \<and> snd (squash_calls example_pkgPath example_trace ! 0)
   \<and> snd (squash_calls example_pkgPath example_trace ! 1)
   \<and> \<not> snd (last (squash_calls example_pkgPath example_trace))
   \<and> squash_calls example_pkgPath example_trace ! 2 =
       squash example_pkgPath (fst (squash_calls example_pkgPath example_trace ! 1))
   \<and> fst (reduce example_pkgPath example_trace) =
       [[], ''main.TestX'', CHR 0x09 # ''/src/x_test.go:12'']"
proof -
  have len: "length (squash_calls example_pkgPath example_trace) = 3" by code_simp
  have res: "fst (last (squash_calls example_pkgPath example_trace)) =
       [[], ''main.TestX'', CHR 0x09 # ''/src/x_test.go:12'']"
    by code_simp
  note t = Using_squash_passes [of example_pkgPath example_trace]
  from t have chain: "\<forall>k. Suc k < length (squash_calls example_pkgPath example_trace) \<longrightarrow>
          snd (squash_calls example_pkgPath example_trace ! k) \<and>
          squash_calls example_pkgPath example_trace ! Suc k =
            squash example_pkgPath (fst (squash_calls example_pkgPath example_trace ! k))"
    by blast
  from chain len have k0: "snd (squash_calls example_pkgPath example_trace ! 0)" by simp
  from chain len have k1: "snd (squash_calls example_pkgPath example_trace ! 1) \<and>
      squash_calls example_pkgPath example_trace ! 2 =
       squash example_pkgPath (fst (squash_calls example_pkgPath example_trace ! 1))"
    by (metis One_nat_def Suc_1 lessI numeral_3_eq_3)
  from t len have stop: "\<not> snd (last (squash_calls example_pkgPath example_trace))" by simp
  from t res have "fst (reduce example_pkgPath example_trace) =
       [[], ''main.TestX'', CHR 0x09 # ''/src/x_test.go:12'']"
    by simp
  with len k0 k1 stop show ?thesis by simp
qed

section \<open>Lemmas on the failure state\<close>

lemma state_failing_True: "failing s \<Longrightarrow> s\<lparr>failing := True\<rparr> = s"
  by (cases s) simp

lemma state_reset: "s\<lparr>failing := False, queue := []\<rparr> = init_state"
  by (cases s) (simp add: init_state_def)

lemma state_empty_queue:
  "\<not> failing s \<Longrightarrow> queue s = [] \<Longrightarrow> s\<lparr>failing := True\<rparr> = \<lparr>failing = True, queue = []\<rparr>"
  by (cases s) simp

lemma Using_failure:
  "Using pkgPath stack failer (VFail f) s =
     failer (f @ [VStr (Join (fst (reduce pkgPath (Split stack newline))) [newline])] @ queue s)
       init_state"
  by (simp add: Using_def state_reset Let_def)

lemma Using_nil: "Using pkgPath stack failer VNil s = (s, Returned)"
  by (simp add: Using_def)

lemma Using_foreign:
  "r \<noteq> VNil \<Longrightarrow> (\<forall>f. r \<noteq> VFail f) \<Longrightarrow> Using pkgPath stack failer r s = (s, Panicked r)"
  by (cases r) (simp_all add: Using_def)

lemma Now_first:
  "\<not> failing s \<Longrightarrow> Now args s = (s\<lparr>failing := True\<rparr>, Panicked (VFail args))"
  by (simp add: Now_def Message_def)

lemma Now_failing:
  "failing s \<Longrightarrow>
   Now args s =
     (s\<lparr>queue := queue s @
         [VStr (newline # ''Failure on defer: '' @ Join (map render args) '' '' @ [newline])]\<rparr>,
      Returned)"
  by (simp add: Now_def Message_def enqueue_def Sprintln_def state_failing_True)

lemma Message_failing: "failing (fst (Message args s))"
  by (simp add: Message_def)

lemma Now_sets_failing: "failing (fst (Now args s))"
  by (cases "failing s") (simp_all add: Now_first Now_failing)

lemma unwind_Now:
  "failing s \<Longrightarrow>
   unwind (map Now argss) (s, out) =
     (s\<lparr>queue := queue s @
         map (\<lambda>a. VStr (newline # ''Failure on defer: '' @ Join (map render a) '' '' @ [newline]))
           argss\<rparr>, out)"
proof (induction argss arbitrary: s)
  case Nil
  then show ?case by simp
next
  case (Cons a argss)
  let ?s1 = "s\<lparr>queue := queue s @
         [VStr (newline # ''Failure on defer: '' @ Join (map render a) '' '' @ [newline])]\<rparr>"
  have "failing ?s1" using Cons.prems by simp
  from Cons.IH [OF this] Now_failing [OF Cons.prems, of a] show ?case by simp
qed

lemma exec_call_invariant:
  assumes "\<not> failing s \<longrightarrow> queue s = []"
  shows "\<not> failing (exec_call pkgPath c s) \<longrightarrow> queue (exec_call pkgPath c s) = []"
proof (cases c)
  case (CallMessage args)
  then show ?thesis by (simp add: Message_failing)
next
  case (CallNow args)
  then show ?thesis by (simp add: Now_sets_failing)
next
  case (CallIfErr err args)
  with assms show ?thesis by (simp add: IfErr_def Now_sets_failing)
next
  case (CallIfDeferred err args)
  with assms show ?thesis by (simp add: IfDeferred_def Now_sets_failing)
next
  case (CallIf b args)
  with assms show ?thesis by (simp add: If_def Now_sets_failing)
next
  case (CallUsing stack r)
  with assms show ?thesis
    by (cases r) (simp_all add: Using_def init_state_def)
qed

lemma run_invariant:
  "\<not> failing s \<longrightarrow> queue s = [] \<Longrightarrow>
   \<not> failing (run pkgPath cs s) \<longrightarrow> queue (run pkgPath cs s) = []"
proof (induction cs arbitrary: s)
  case Nil
  then show ?case by simp
next
  case (Cons c cs)
  from exec_call_invariant [OF Cons.prems, of pkgPath c]
  have "\<not> failing (exec_call pkgPath c s) \<longrightarrow> queue (exec_call pkgPath c s) = []" .
  from Cons.IH [OF this] show ?case by simp
qed

lemma example_stack_reduced:
  "Join (fst (reduce example_pkgPath (Split example_stack newline))) [newline] =
     newline # ''main.TestX'' @ [newline, CHR 0x09] @ ''/src/x_test.go:12''"
  by code_simp

section \<open>Raising and recovering: the claims\<close>

text \<open>
  Claim C1. When \<open>IfErr\<close> is called with a non-nil error while \<open>failing\<close> is false, in
  a function whose deferred call is \<open>Using\<close>, the reporter is called, and the first
  of its arguments is that error (the others are \<open>args\<close>, the joined trace and the
  queue).
\<close>

theorem IfErr_reports_error_first:
  "err \<noteq> VNil \<Longrightarrow> \<not> failing s \<Longrightarrow>
   guarded pkgPath stack failer (IfErr err args) [] s =
     failer (err # args @ [VStr (Join (fst (reduce pkgPath (Split stack newline))) [newline])]
               @ queue s) init_state"
  by (simp add: guarded_def IfErr_def Now_first Using_failure)

theorem IfErr_reports_error_first_witness:
  "guarded example_pkgPath example_stack example_failer
     (IfErr (VErr ''boom'') [VStr ''reading'']) [] init_state =
   (init_state,
    Panicked (VFail [VErr ''boom'', VStr ''reading'',
      VStr (newline # ''main.TestX'' @ [newline, CHR 0x09] @ ''/src/x_test.go:12'')]))"
proof -
  have h1: "VErr ''boom'' \<noteq> VNil" by simp
  have h2: "\<not> failing init_state" by (simp add: init_state_def)
  from IfErr_reports_error_first [OF h1 h2, of example_pkgPath example_stack
      example_failer "[VStr ''reading'']"] example_stack_reduced
  show ?thesis by (simp add: init_state_def example_failer_def)
qed

text \<open>
  Claim C2, as amended. While \<open>failing\<close> is true, \<open>Now\<close> returns to its caller without
  a panic: it is \<open>enqueue\<close> of the failure, which leaves \<open>failing\<close> true and appends
  one string to the queue. The string is a line feed, then \<open>"Failure on defer: "\<close>,
  then the arguments as \<open>fmt.Sprintln\<close> prints them (separated by spaces, ended by a
  line feed).
\<close>

theorem Now_while_failing:
  "failing s \<Longrightarrow>
   Now args s =
     (s\<lparr>queue := queue s @
         [VStr (newline # ''Failure on defer: '' @ Join (map render args) '' '' @ [newline])]\<rparr>,
      Returned)
   \<and> Now args s = enqueue (VFail args) s"
  by (simp add: Now_def Message_def enqueue_def Sprintln_def state_failing_True)

theorem Now_while_failing_witness:
  "Now [VStr ''second'', VErr ''EOF''] \<lparr>failing = True, queue = [VStr ''earlier'']\<rparr> =
     (\<lparr>failing = True,
       queue = [VStr ''earlier'', VStr (newline # ''Failure on defer: second EOF'' @ [newline])]\<rparr>,
      Returned)"
proof -
  have h: "failing \<lparr>failing = True, queue = [VStr ''earlier'']\<rparr>" by simp
  from Now_while_failing [OF h, of "[VStr ''second'', VErr ''EOF'']"] show ?thesis by simp
qed

theorem Now_note_counterexample:
  "snd (Now [VStr ''second''] \<lparr>failing = True, queue = []\<rparr>) = Returned
   \<and> queue (fst (Now [VStr ''second''] \<lparr>failing = True, queue = []\<rparr>))
       = [VStr (newline # ''Failure on defer: second'' @ [newline])]
   \<and> queue (fst (Now [VStr ''second''] \<lparr>failing = True, queue = []\<rparr>))
       \<noteq> [VStr ''Failure on defer: second'']
   \<and> queue (fst (Now [VStr ''second''] \<lparr>failing = True, queue = []\<rparr>))
       \<noteq> [VStr (''Failure on defer: '' @ Sprintln [VStr ''second''])]"
  by (simp add: Now_def Message_def enqueue_def Sprintln_def newline_def)

text \<open>
  Claim C4. When \<open>Using\<close> recovers a failure, the reporter is called with the values
  of the failure, then one string (the reduced trace, joined), then the queue. After a
  first \<open>Now\<close>, deferred calls of \<open>Now\<close> append their notes to the queue in the order
  they run, so the notes follow the trace in that order.
\<close>

theorem Using_report_order:
  "Using pkgPath stack failer (VFail f) s =
     failer (f @ [VStr (Join (fst (reduce pkgPath (Split stack newline))) [newline])] @ queue s)
       init_state
   \<and> (\<not> failing s \<longrightarrow>
        guarded pkgPath stack failer (Now f) (map Now argss) s =
          failer (f @ [VStr (Join (fst (reduce pkgPath (Split stack newline))) [newline])]
                    @ queue s
                    @ map (\<lambda>a. VStr (newline # ''Failure on defer: ''
                                       @ Join (map render a) '' '' @ [newline])) argss)
            init_state)"
proof (intro conjI impI)
  show "Using pkgPath stack failer (VFail f) s =
     failer (f @ [VStr (Join (fst (reduce pkgPath (Split stack newline))) [newline])] @ queue s)
       init_state"
    by (rule Using_failure)
next
  assume nf: "\<not> failing s"
  have f1: "failing (s\<lparr>failing := True\<rparr>)" by simp
  show "guarded pkgPath stack failer (Now f) (map Now argss) s =
          failer (f @ [VStr (Join (fst (reduce pkgPath (Split stack newline))) [newline])]
                    @ queue s
                    @ map (\<lambda>a. VStr (newline # ''Failure on defer: ''
                                       @ Join (map render a) '' '' @ [newline])) argss)
            init_state"
    by (simp add: guarded_def Now_first [OF nf] unwind_Now [OF f1] Using_failure)
qed

theorem Using_report_order_witness:
  "guarded example_pkgPath example_stack example_failer (Now [VStr ''first''])
     [Now [VStr ''second''], Now [VStr ''third'']] init_state =
   (init_state,
    Panicked (VFail [VStr ''first'',
      VStr (newline # ''main.TestX'' @ [newline, CHR 0x09] @ ''/src/x_test.go:12''),
      VStr (newline # ''Failure on defer: second'' @ [newline]),
      VStr (newline # ''Failure on defer: third'' @ [newline])]))"
proof -
  have h: "\<not> failing init_state" by (simp add: init_state_def)
  from Using_report_order [of example_pkgPath example_stack example_failer "[VStr ''first'']"
      init_state "[[VStr ''second''], [VStr ''third'']]"] h
  have "guarded example_pkgPath example_stack example_failer (Now [VStr ''first''])
          (map Now [[VStr ''second''], [VStr ''third'']]) init_state =
        example_failer ([VStr ''first'']
          @ [VStr (Join (fst (reduce example_pkgPath (Split example_stack newline))) [newline])]
          @ queue init_state
          @ map (\<lambda>a. VStr (newline # ''Failure on defer: ''
                             @ Join (map render a) '' '' @ [newline]))
              [[VStr ''second''], [VStr ''third'']])
          init_state"
    by blast
  with example_stack_reduced show ?thesis
    by (simp add: init_state_def example_failer_def)
qed

text \<open>
  Claim C5. When the recovered value is neither \<open>nil\<close> nor a failure, \<open>Using\<close> panics
  with that same value and leaves the state as it was, whatever the reporter and the
  stack are: neither is used.
\<close>

theorem Using_rethrows_foreign:
  "r \<noteq> VNil \<Longrightarrow> (\<forall>f. r \<noteq> VFail f) \<Longrightarrow>
   (\<forall>stack failer. Using pkgPath stack failer r s = (s, Panicked r))"
  by (simp add: Using_foreign)

theorem Using_rethrows_foreign_witness:
  "Using example_pkgPath example_stack example_failer
     (VErr ''runtime error: index out of range'') \<lparr>failing = True, queue = [VStr ''note'']\<rparr>
   = (\<lparr>failing = True, queue = [VStr ''note'']\<rparr>,
      Panicked (VErr ''runtime error: index out of range''))"
proof -
  have h1: "VErr ''runtime error: index out of range'' \<noteq> VNil" by simp
  have h2: "\<forall>f. VErr ''runtime error: index out of range'' \<noteq> VFail f" by simp
  from Using_rethrows_foreign [OF h1 h2] show ?thesis by blast
qed

text \<open>
  Claim C9. In every state that calls of the package reach from the initial state,
  \<open>failing\<close> false means that the queue is empty; so the first raise (\<open>Message\<close>, or
  \<open>Now\<close> while \<open>failing\<close> is false) leaves \<open>failing\<close> true and the queue empty, and
  \<open>Now\<close> panics with the failure. (\<open>Message\<close> writes \<open>failing\<close> only: the queue it
  leaves is the queue it found.)
\<close>

theorem first_raise_state:
  "\<not> failing (run pkgPath cs init_state) \<Longrightarrow>
   queue (run pkgPath cs init_state) = []
   \<and> Message args (run pkgPath cs init_state) = (\<lparr>failing = True, queue = []\<rparr>, VFail args)
   \<and> Now args (run pkgPath cs init_state) =
       (\<lparr>failing = True, queue = []\<rparr>, Panicked (VFail args))
   \<and> queue (fst (Message args s)) = queue s"
proof -
  assume nf: "\<not> failing (run pkgPath cs init_state)"
  have "\<not> failing init_state \<longrightarrow> queue init_state = []" by (simp add: init_state_def)
  from run_invariant [OF this, of pkgPath cs] nf
  have q: "queue (run pkgPath cs init_state) = []" by simp
  from nf q show ?thesis
    by (simp add: Message_def Now_first state_empty_queue)
qed

theorem first_raise_state_witness:
  "\<not> failing (run example_pkgPath
       [CallNow [VStr ''first''], CallNow [VStr ''second''],
        CallUsing example_stack (VFail [VStr ''first''])] init_state)
   \<and> queue (run example_pkgPath [CallNow [VStr ''first''], CallNow [VStr ''second'']] init_state)
       = [VStr (newline # ''Failure on defer: second'' @ [newline])]
   \<and> Now [VStr ''third''] (run example_pkgPath
       [CallNow [VStr ''first''], CallNow [VStr ''second''],
        CallUsing example_stack (VFail [VStr ''first''])] init_state)
     = (\<lparr>failing = True, queue = []\<rparr>, Panicked (VFail [VStr ''third'']))"
proof -
  have h: "\<not> failing (run example_pkgPath
       [CallNow [VStr ''first''], CallNow [VStr ''second''],
        CallUsing example_stack (VFail [VStr ''first''])] init_state)"
    by (simp add: Using_failure init_state_def)
  have q: "queue (run example_pkgPath [CallNow [VStr ''first''], CallNow [VStr ''second'']]
             init_state)
       = [VStr (newline # ''Failure on defer: second'' @ [newline])]"
    by (simp add: init_state_def Now_first Now_failing)
  from first_raise_state [OF h, of "[VStr ''third'']"] h q show ?thesis by simp
qed

text \<open>
  Claim C10. \<open>Using\<close> changes the state only when it recovered a failure: then the
  reporter is called in the initial state (\<open>failing\<close> false, queue empty). When it
  recovered \<open>nil\<close> it returns, and when it recovered another value it panics with it,
  in both cases with the state as it was; so \<open>failing\<close>, set by a \<open>Message\<close> whose
  value was never thrown, is still true after \<open>Using\<close>.
\<close>

theorem Using_state_frame:
  "Using pkgPath stack failer VNil s = (s, Returned)
   \<and> (r \<noteq> VNil \<and> (\<forall>f. r \<noteq> VFail f) \<longrightarrow> Using pkgPath stack failer r s = (s, Panicked r))
   \<and> Using pkgPath stack failer (VFail f) s =
       failer (f @ [VStr (Join (fst (reduce pkgPath (Split stack newline))) [newline])] @ queue s)
         init_state
   \<and> Using pkgPath stack failer VNil (fst (Message args s)) = (s\<lparr>failing := True\<rparr>, Returned)"
  by (simp add: Using_nil Using_foreign Using_failure Message_def)

theorem Using_state_frame_witness:
  "Using example_pkgPath example_stack example_failer
     (VStr ''boom'') \<lparr>failing = True, queue = [VStr ''note'']\<rparr>
   = (\<lparr>failing = True, queue = [VStr ''note'']\<rparr>, Panicked (VStr ''boom''))
   \<and> failing (fst (Using example_pkgPath example_stack example_failer VNil
        (fst (Message [VStr ''unused''] init_state))))"
  using Using_state_frame [of example_pkgPath example_stack example_failer
      "\<lparr>failing = True, queue = [VStr ''note'']\<rparr>" "VStr ''boom''"]
    Using_state_frame [of example_pkgPath example_stack example_failer
      init_state _ _ "[VStr ''unused'']"]
  by simp

text \<open>
  Claim C6, as amended. \<open>If\<close> raises when its condition is true: while \<open>failing\<close> is
  false it panics with the failure made of its arguments (and sets \<open>failing\<close>) exactly
  when the condition is true, and returns with the state as it was when the condition
  is false. \<open>IfNot\<close>, of the second file, panics with the failure exactly when its
  condition is false. Under \<open>Using\<close>, \<open>If(true, "x", " != ", "y")\<close> makes the reporter
  be called with \<open>"x"\<close>, \<open>" != "\<close>, \<open>"y"\<close>, the trace and the queue; under the second
  file's \<open>Using\<close>, \<open>IfNot(false, "x", " != ", "y")\<close> makes it be called with \<open>"x"\<close>,
  \<open>" != "\<close>, \<open>"y"\<close> and the trace.
\<close>

theorem condition_checks:
  "(\<not> failing s \<longrightarrow>
      If condition args s =
        (if condition then (s\<lparr>failing := True\<rparr>, Panicked (VFail args)) else (s, Returned)))
   \<and> If False args s = (s, Returned)
   \<and> IfNot condition args = (if condition then Returned else Panicked (VFail args))
   \<and> (\<not> failing s \<longrightarrow>
        guarded pkgPath stack failer (If True [VStr ''x'', VStr '' != '', VStr ''y'']) [] s =
          failer ([VStr ''x'', VStr '' != '', VStr ''y'',
                   VStr (Join (fst (reduce pkgPath (Split stack newline))) [newline])] @ queue s)
            init_state)
   \<and> Using_part0 pkgPath stack failer0
        (recovered (IfNot False [VStr ''x'', VStr '' != '', VStr ''y''])) =
       failer0 [VStr ''x'', VStr '' != '', VStr ''y'',
                VStr (Join (fst (scan_part0 pkgPath (Split stack newline) ([''''], False, False)))
                        [newline])]"
  by (simp add: If_def IfNot_def Now_first guarded_def Using_failure Using_part0_def)

theorem condition_checks_witness:
  "If True [VStr ''x'', VStr '' != '', VStr ''y''] init_state =
     (\<lparr>failing = True, queue = []\<rparr>, Panicked (VFail [VStr ''x'', VStr '' != '', VStr ''y'']))
   \<and> guarded example_pkgPath example_stack example_failer
        (If True [VStr ''x'', VStr '' != '', VStr ''y'']) [] init_state =
      (init_state,
       Panicked (VFail [VStr ''x'', VStr '' != '', VStr ''y'',
         VStr (newline # ''main.TestX'' @ [newline, CHR 0x09] @ ''/src/x_test.go:12'')]))"
proof -
  have h: "\<not> failing init_state" by (simp add: init_state_def)
  note t = condition_checks [of init_state True "[VStr ''x'', VStr '' != '', VStr ''y'']"
      example_pkgPath example_stack example_failer]
  from t h have a: "If True [VStr ''x'', VStr '' != '', VStr ''y''] init_state =
     (\<lparr>failing = True, queue = []\<rparr>, Panicked (VFail [VStr ''x'', VStr '' != '', VStr ''y'']))"
    by (simp add: init_state_def)
  from t h have "guarded example_pkgPath example_stack example_failer
        (If True [VStr ''x'', VStr '' != '', VStr ''y'']) [] init_state =
      example_failer ([VStr ''x'', VStr '' != '', VStr ''y'',
         VStr (Join (fst (reduce example_pkgPath (Split example_stack newline))) [newline])]
         @ queue init_state) init_state"
    by blast
  with example_stack_reduced have b: "guarded example_pkgPath example_stack example_failer
        (If True [VStr ''x'', VStr '' != '', VStr ''y'']) [] init_state =
      (init_state,
       Panicked (VFail [VStr ''x'', VStr '' != '', VStr ''y'',
         VStr (newline # ''main.TestX'' @ [newline, CHR 0x09] @ ''/src/x_test.go:12'')]))"
    by (simp add: init_state_def example_failer_def)
  from a b show ?thesis by blast
qed

theorem If_false_counterexample:
  "If False [VStr ''x'', VStr '' != '', VStr ''y''] init_state = (init_state, Returned)
   \<and> snd (If False [VStr ''x'', VStr '' != '', VStr ''y''] init_state)
       \<noteq> Panicked (VFail [VStr ''x'', VStr '' != '', VStr ''y''])
   \<and> guarded example_pkgPath example_stack example_failer
        (If False [VStr ''x'', VStr '' != '', VStr ''y'']) [] init_state = (init_state, Returned)
   \<and> If True [VStr ''x'', VStr '' != '', VStr ''y''] init_state \<noteq> (init_state, Returned)"
  by (simp add: If_def guarded_def Using_nil Now_first init_state_def)

end
